theory Spec2Isabelle
  imports Main
begin

section \<open>JavaScript values, errors and the container state\<close>

text \<open>
  The repository holds two versions of \<^verbatim>\<open>index.js\<close>: the one in
  \<^verbatim>\<open>src/unnamed/part_001\<close> (lines 15-65) and the one in \<^verbatim>\<open>src/sample.ts\<close>
  (lines 45-91). They share \<^verbatim>\<open>flush\<close> and \<^verbatim>\<open>invalidate\<close> and differ in the
  tracked view, the value accessor and the action wrapper. Both are modelled; the
  functions that differ take the version as a parameter.
\<close>

datatype variant = Part001 | Sample

type_synonym addr = nat
type_synonym pid = nat

text \<open>
  The JavaScript values that the container handles. \<open>VObj a\<close> is a reference to the
  plain object at address \<open>a\<close> of the heap; \<open>VProxy t\<close> is a tracked view, the result
  of \<^verbatim>\<open>new Proxy(t, handlers)\<close> (the handlers of both versions ignore their target
  argument, so the view keeps its construction-time target only as its identity);
  \<open>VPromise p\<close> is the promise \<open>p\<close>; \<open>VNative n\<close> is a built-in function such as
  \<^verbatim>\<open>Promise.prototype.finally\<close>. Numbers are integers, and user-defined function
  values are not part of the model.
\<close>

datatype val =
    VUndefined
  | VNull
  | VBool bool
  | VNum int
  | VStr string
  | VObj addr
  | VProxy val
  | VPromise pid
  | VNative string

datatype error = TypeError | ReferenceError | RangeError | Thrown val

type_synonym outcome = "error + val"

datatype pstate = Pending | Settled outcome

text \<open>
  The microtasks that the container's code leaves in the queue: \<open>Checkpoint\<close> is the
  rest of \<^verbatim>\<open>invalidate\<close> after \<^verbatim>\<open>await s\<close>, that is \<^verbatim>\<open>flush()\<close>;
  \<open>FinallyFlush q out\<close> is the reaction of \<^verbatim>\<open>res.finally(flush)\<close> to the
  settlement \<open>out\<close> of \<^verbatim>\<open>res\<close>, where \<open>q\<close> is the promise that \<^verbatim>\<open>finally\<close> returned.
\<close>

datatype task = Checkpoint | FinallyFlush pid outcome

text \<open>
  The state of one container and of the part of the runtime it touches. The first
  three fields are the closure variables of \<^verbatim>\<open>actions\<close>: \<open>the_value\<close> is
  \<^verbatim>\<open>value\<close> (renamed, \<open>value\<close> being a keyword here), \<open>dirty\<close> is true when
  \<^verbatim>\<open>dirty\<close> holds \<^verbatim>\<open>s\<close> and false when it holds \<^verbatim>\<open>undefined\<close>, and
  \<open>valueProxy\<close> is \<^verbatim>\<open>valueProxy\<close>. \<open>s_value\<close> and \<open>s_notified\<close> are the store
  \<^verbatim>\<open>s\<close>. The rest is the heap of plain objects with the next free address, the
  promises with the next free identifier, the reactions registered by
  \<^verbatim>\<open>finally\<close> as pairs of the promise waited for and the promise returned, and the
  microtask queue, oldest first.
\<close>

record cstate =
  the_value :: val
  dirty :: bool
  valueProxy :: val
  s_value :: val
  s_notified :: "val list"
  heap :: "addr \<Rightarrow> string \<Rightarrow> val"
  next_addr :: addr
  promises :: "pid \<Rightarrow> pstate"
  next_pid :: pid
  reactions :: "(pid \<times> pid) list"
  queue :: "task list"

text \<open>\<^verbatim>\<open>x instanceof Object\<close>: objects, views, promises and functions.\<close>

fun instanceof_Object :: "val \<Rightarrow> bool" where
  "instanceof_Object (VObj a) = True"
| "instanceof_Object (VProxy t) = True"
| "instanceof_Object (VPromise p) = True"
| "instanceof_Object (VNative n) = True"
| "instanceof_Object v = False"

text \<open>JavaScript truthiness, as \<^verbatim>\<open>&&\<close>, \<^verbatim>\<open>!\<close> and \<^verbatim>\<open>? :\<close> test it.\<close>

fun truthy :: "val \<Rightarrow> bool" where
  "truthy VUndefined = False"
| "truthy VNull = False"
| "truthy (VBool b) = b"
| "truthy (VNum n) = (n \<noteq> 0)"
| "truthy (VStr s) = (s \<noteq> [])"
| "truthy v = True"

text \<open>Whether a reference is a tracked view.\<close>

fun is_view :: "val \<Rightarrow> bool" where
  "is_view (VProxy t) = True"
| "is_view v = False"

section \<open>The underlying store\<close>

text \<open>
  Modelled from the spec: \<^verbatim>\<open>writable\<close> of \<^verbatim>\<open>svelte/store\<close>, which the source
  imports and the repository does not contain. Section 6 of the specification:
  \<^verbatim>\<open>set(newValue)\<close> replaces the stored value and synchronously invokes every
  registered callback with \<^verbatim>\<open>newValue\<close>. The field \<open>s_value\<close> is the stored value
  and \<open>s_notified\<close> lists, oldest first, the values that \<^verbatim>\<open>set\<close> has handed to the
  subscribers; subscribers only record what they receive.
\<close>

definition s_set :: "val \<Rightarrow> cstate \<Rightarrow> cstate" where
  "s_set v st = st\<lparr>s_value := v, s_notified := s_notified st @ [v]\<rparr>"

section \<open>The flush scheduler\<close>

text \<open>
  \<^verbatim>\<open>const flush = () => dirty && (dirty = s.set(value));\<close>
  \<^verbatim>\<open>s.set\<close> returns \<^verbatim>\<open>undefined\<close>, so the token is cleared after the push.
\<close>

definition flush :: "cstate \<Rightarrow> cstate" where
  "flush st = (if dirty st then (s_set (the_value st) st)\<lparr>dirty := False\<rparr> else st)"

text \<open>
  \<^verbatim>\<open>const invalidate = async () => !dirty && ((dirty = s), await s, flush());\<close>
  The part before \<^verbatim>\<open>await\<close> runs at once; the rest is queued as a microtask.
\<close>

definition invalidate :: "cstate \<Rightarrow> cstate" where
  "invalidate st =
     (if \<not> dirty st then st\<lparr>dirty := True, queue := queue st @ [Checkpoint]\<rparr> else st)"

section \<open>Property access\<close>

text \<open>
  \<^verbatim>\<open>o[p]\<close> on a value that is not a tracked view. Reading a property of
  \<^verbatim>\<open>undefined\<close> or \<^verbatim>\<open>null\<close> throws a TypeError; a plain object yields what the
  heap holds (\<open>VUndefined\<close> for an absent property); a promise has its three methods;
  the built-in members of primitives and the own properties of promises and native
  functions are not modelled and read as \<^verbatim>\<open>undefined\<close>.
\<close>

fun raw_get :: "val \<Rightarrow> string \<Rightarrow> cstate \<Rightarrow> outcome" where
  "raw_get VUndefined p st = Inl TypeError"
| "raw_get VNull p st = Inl TypeError"
| "raw_get (VObj a) p st = Inr (heap st a p)"
| "raw_get (VPromise q) p st =
     Inr (if p = ''then'' \<or> p = ''catch'' \<or> p = ''finally''
          then VNative (''Promise.prototype.'' @ p) else VUndefined)"
| "raw_get v p st = Inr VUndefined"

text \<open>
  \<^verbatim>\<open>o[p] = v\<close> on a value that is not a tracked view, in strict code (the source
  and its tests are ES modules): assigning to a property of a primitive throws a
  TypeError.
\<close>

fun raw_set :: "val \<Rightarrow> string \<Rightarrow> val \<Rightarrow> cstate \<Rightarrow> outcome \<times> cstate" where
  "raw_set (VObj a) p v st = (Inr v, st\<lparr>heap := (heap st)(a := (heap st a)(p := v))\<rparr>)"
| "raw_set (VPromise q) p v st = (Inr v, st)"
| "raw_set (VNative n) p v st = (Inr v, st)"
| "raw_set r p v st = (Inl TypeError, st)"

section \<open>The change tracker\<close>

text \<open>
  The \<^verbatim>\<open>get\<close> handler of the proxy.
  \<^verbatim>\<open>src/sample.ts\<close>: \<^verbatim>\<open>get: (_, p) => { invalidate(); return value[p]; }\<close>, where
  \<^verbatim>\<open>value\<close> is the closure variable. When that variable holds a tracked view
  (after \<^verbatim>\<open>store.value = store.value\<close>), \<^verbatim>\<open>value[p]\<close> enters the handler again
  without end and the engine throws a RangeError.
  \<^verbatim>\<open>src/unnamed/part_001\<close>: \<^verbatim>\<open>get: (_, p) => { invalidate(); return target[p]; }\<close>;
  no variable \<^verbatim>\<open>target\<close> is declared (the handler names its first parameter
  \<^verbatim>\<open>_\<close>), so evaluating it throws a ReferenceError.
\<close>

definition trap_get :: "variant \<Rightarrow> string \<Rightarrow> cstate \<Rightarrow> outcome \<times> cstate" where
  "trap_get var p st =
     (let st1 = invalidate st in
      case var of
        Part001 \<Rightarrow> (Inl ReferenceError, st1)
      | Sample \<Rightarrow>
          (case the_value st1 of
             VProxy t \<Rightarrow> (Inl RangeError, st1)
           | v \<Rightarrow> (raw_get v p st1, st1)))"

text \<open>
  The \<^verbatim>\<open>set\<close> handler: \<^verbatim>\<open>set: (_, p, v) => { invalidate(); return (value[p] = v); }\<close>
  in \<^verbatim>\<open>src/sample.ts\<close>, and the same with \<^verbatim>\<open>target[p] = v\<close> in
  \<^verbatim>\<open>src/unnamed/part_001\<close>. The result is what the handler returns.
\<close>

definition trap_set :: "variant \<Rightarrow> string \<Rightarrow> val \<Rightarrow> cstate \<Rightarrow> outcome \<times> cstate" where
  "trap_set var p v st =
     (let st1 = invalidate st in
      case var of
        Part001 \<Rightarrow> (Inl ReferenceError, st1)
      | Sample \<Rightarrow>
          (case the_value st1 of
             VProxy t \<Rightarrow> (Inl RangeError, st1)
           | w \<Rightarrow> raw_set w p v st1))"

text \<open>
  The expression \<^verbatim>\<open>r[p]\<close> and the statement \<^verbatim>\<open>r[p] = v\<close> as action code
  writes them, for any reference \<open>r\<close>. Every \<open>VProxy\<close> is a view of this container. In
  strict code an assignment through a proxy whose \<^verbatim>\<open>set\<close> handler returns a falsy
  value throws a TypeError after the handler has run.
\<close>

definition get_prop :: "variant \<Rightarrow> val \<Rightarrow> string \<Rightarrow> cstate \<Rightarrow> outcome \<times> cstate" where
  "get_prop var r p st =
     (case r of VProxy t \<Rightarrow> trap_get var p st | _ \<Rightarrow> (raw_get r p st, st))"

definition set_prop :: "variant \<Rightarrow> val \<Rightarrow> string \<Rightarrow> val \<Rightarrow> cstate \<Rightarrow> outcome \<times> cstate" where
  "set_prop var r p v st =
     (case r of
        VProxy t \<Rightarrow>
          (case trap_set var p v st of
             (Inl e, st1) \<Rightarrow> (Inl e, st1)
           | (Inr res, st1) \<Rightarrow> if truthy res then (Inr v, st1) else (Inl TypeError, st1))
      | _ \<Rightarrow> raw_set r p v st)"

text \<open>
  \<^verbatim>\<open>makeStateProxy\<close> of \<^verbatim>\<open>src/unnamed/part_001\<close>:
  \<^verbatim>\<open>valueProxy = value instanceof Object ? new Proxy(value, {...}) : value\<close>.
\<close>

definition makeStateProxy :: "cstate \<Rightarrow> cstate" where
  "makeStateProxy st =
     st\<lparr>valueProxy :=
          (if instanceof_Object (the_value st) then VProxy (the_value st) else the_value st)\<rparr>"

section \<open>The value accessor\<close>

text \<open>
  \<^verbatim>\<open>get value()\<close>: \<^verbatim>\<open>return value;\<close> in \<^verbatim>\<open>src/unnamed/part_001\<close>,
  \<^verbatim>\<open>return valueProxy;\<close> in \<^verbatim>\<open>src/sample.ts\<close>.
\<close>

definition get_value :: "variant \<Rightarrow> cstate \<Rightarrow> val" where
  "get_value var st = (case var of Part001 \<Rightarrow> the_value st | Sample \<Rightarrow> valueProxy st)"

text \<open>
  \<^verbatim>\<open>set value(nextValue)\<close>. Both versions start with \<^verbatim>\<open>invalidate(); value = nextValue;\<close>.
  Then \<^verbatim>\<open>src/unnamed/part_001\<close> calls \<^verbatim>\<open>makeStateProxy()\<close>, and \<^verbatim>\<open>src/sample.ts\<close>
  runs \<^verbatim>\<open>!(value instanceof Object) && (valueProxy = value)\<close>.
\<close>

definition set_value :: "variant \<Rightarrow> val \<Rightarrow> cstate \<Rightarrow> cstate" where
  "set_value var nextValue st =
     (let st1 = invalidate st;
          st2 = st1\<lparr>the_value := nextValue\<rparr>
      in case var of
           Part001 \<Rightarrow> makeStateProxy st2
         | Sample \<Rightarrow>
             (if \<not> instanceof_Object (the_value st2) then st2\<lparr>valueProxy := the_value st2\<rparr>
              else st2))"

text \<open>
  \<^verbatim>\<open>stetson(value).actions(builder)\<close> up to the call of the builder: the closure
  variables of a new container, in a world \<open>w\<close> that supplies the heap, the promises
  and the microtask queue. \<^verbatim>\<open>writable(value)\<close> stores the initial value and has
  notified nobody yet; \<^verbatim>\<open>dirty\<close> is \<^verbatim>\<open>undefined\<close>; \<^verbatim>\<open>src/unnamed/part_001\<close>
  calls \<^verbatim>\<open>makeStateProxy()\<close> and \<^verbatim>\<open>src/sample.ts\<close> initialises
  \<^verbatim>\<open>valueProxy\<close> with the same expression.
\<close>

definition stetson :: "variant \<Rightarrow> val \<Rightarrow> cstate \<Rightarrow> cstate" where
  "stetson var v w =
     (let st = w\<lparr>the_value := v, dirty := False, s_value := v, s_notified := []\<rparr>
      in case var of
           Part001 \<Rightarrow> makeStateProxy st
         | Sample \<Rightarrow> st\<lparr>valueProxy := (if instanceof_Object v then VProxy v else v)\<rparr>)"

definition empty_world :: cstate where
  "empty_world =
     \<lparr>the_value = VUndefined, dirty = False, valueProxy = VUndefined,
      s_value = VUndefined, s_notified = [],
      heap = (\<lambda>a p. VUndefined), next_addr = 0,
      promises = (\<lambda>p. Pending), next_pid = 0, reactions = [], queue = []\<rparr>"

section \<open>Action bodies\<close>

text \<open>
  The synchronous code of an action (or of a continuation of an asynchronous one), as
  the sequence of its interactions with the container: reading and assigning
  \<^verbatim>\<open>store.value\<close>, reading and writing a property through a reference it holds,
  creating an object or a pending promise, and finally returning or throwing. What
  the code computes in between is a HOL function of the values it has read.
\<close>

datatype prog =
    Return val
  | Throw val
  | GetValue "val \<Rightarrow> prog"
  | SetValue val prog
  | GetProp val string "val \<Rightarrow> prog"
  | SetProp val string val prog
  | NewObj "(string \<times> val) list" "val \<Rightarrow> prog"
  | NewPromise "val \<Rightarrow> prog"

text \<open>
  The properties of \<^verbatim>\<open>{ k1: v1, ... }\<close>; of two entries with the same name the
  later one counts, and an absent property reads as \<^verbatim>\<open>undefined\<close>.
\<close>

definition object_literal :: "(string \<times> val) list \<Rightarrow> string \<Rightarrow> val" where
  "object_literal kvs p = (case map_of (rev kvs) p of None \<Rightarrow> VUndefined | Some v \<Rightarrow> v)"

text \<open>
  Running a body in a state: the outcome (\<open>Inr\<close> the value returned, \<open>Inl\<close> the error
  thrown) and the state it leaves. A property access that throws ends the body, since
  the bodies have no \<^verbatim>\<open>try\<close> of their own.
\<close>

primrec exec :: "prog \<Rightarrow> variant \<Rightarrow> cstate \<Rightarrow> outcome \<times> cstate" where
  "exec (Return v) var st = (Inr v, st)"
| "exec (Throw v) var st = (Inl (Thrown v), st)"
| "exec (GetValue k) var st = exec (k (get_value var st)) var st"
| "exec (SetValue v k) var st = exec k var (set_value var v st)"
| "exec (GetProp r p k) var st =
     (case get_prop var r p st of
        (Inl e, st1) \<Rightarrow> (Inl e, st1)
      | (Inr x, st1) \<Rightarrow> exec (k x) var st1)"
| "exec (SetProp r p v k) var st =
     (case set_prop var r p v st of
        (Inl e, st1) \<Rightarrow> (Inl e, st1)
      | (Inr x, st1) \<Rightarrow> exec k var st1)"
| "exec (NewObj kvs k) var st =
     exec (k (VObj (next_addr st))) var
       (st\<lparr>heap := (heap st)(next_addr st := object_literal kvs),
           next_addr := Suc (next_addr st)\<rparr>)"
| "exec (NewPromise k) var st =
     exec (k (VPromise (next_pid st))) var
       (st\<lparr>promises := (promises st)(next_pid st := Pending), next_pid := Suc (next_pid st)\<rparr>)"

text \<open>
  The number of mutation signals, that is calls of \<^verbatim>\<open>invalidate\<close>, that running a
  body makes: one for each assignment to \<^verbatim>\<open>store.value\<close> and one for each property
  read or write through a tracked view.
\<close>

primrec signals :: "prog \<Rightarrow> variant \<Rightarrow> cstate \<Rightarrow> nat" where
  "signals (Return v) var st = 0"
| "signals (Throw v) var st = 0"
| "signals (GetValue k) var st = signals (k (get_value var st)) var st"
| "signals (SetValue v k) var st = Suc (signals k var (set_value var v st))"
| "signals (GetProp r p k) var st =
     (case r of VProxy t \<Rightarrow> 1 | _ \<Rightarrow> 0) +
     (case get_prop var r p st of
        (Inl e, st1) \<Rightarrow> 0
      | (Inr x, st1) \<Rightarrow> signals (k x) var st1)"
| "signals (SetProp r p v k) var st =
     (case r of VProxy t \<Rightarrow> 1 | _ \<Rightarrow> 0) +
     (case set_prop var r p v st of
        (Inl e, st1) \<Rightarrow> 0
      | (Inr x, st1) \<Rightarrow> signals k var st1)"
| "signals (NewObj kvs k) var st =
     signals (k (VObj (next_addr st))) var
       (st\<lparr>heap := (heap st)(next_addr st := object_literal kvs),
           next_addr := Suc (next_addr st)\<rparr>)"
| "signals (NewPromise k) var st =
     signals (k (VPromise (next_pid st))) var
       (st\<lparr>promises := (promises st)(next_pid st := Pending), next_pid := Suc (next_pid st)\<rparr>)"

section \<open>Promises and microtasks\<close>

text \<open>
  The part of the language runtime that the wrapper of \<^verbatim>\<open>src/sample.ts\<close> relies on,
  after ECMAScript. \<^verbatim>\<open>p.finally(flush)\<close> returns a new promise \<open>q\<close>; once \<open>p\<close> is
  settled, a microtask calls \<^verbatim>\<open>flush\<close> and then settles \<open>q\<close> the way \<open>p\<close> was settled
  (\<^verbatim>\<open>flush\<close> neither throws nor returns a promise). The ticks that the engine
  spends between the call of \<^verbatim>\<open>flush\<close> and the settlement of \<open>q\<close> are folded
  into that one microtask.
\<close>

definition promise_finally :: "pid \<Rightarrow> cstate \<Rightarrow> outcome \<times> cstate" where
  "promise_finally p st =
     (let q = next_pid st;
          st1 = st\<lparr>promises := (promises st)(q := Pending), next_pid := Suc q\<rparr>
      in case promises st p of
           Pending \<Rightarrow> (Inr (VPromise q), st1\<lparr>reactions := reactions st1 @ [(p, q)]\<rparr>)
         | Settled out \<Rightarrow> (Inr (VPromise q), st1\<lparr>queue := queue st1 @ [FinallyFlush q out]\<rparr>))"

text \<open>
  Settling the promise \<open>p\<close> with \<open>out\<close> (\<open>Inr v\<close> fulfils it, \<open>Inl e\<close> rejects it): a
  promise settles once, and each reaction registered on it is queued.
\<close>

definition settle :: "pid \<Rightarrow> outcome \<Rightarrow> cstate \<Rightarrow> cstate" where
  "settle p out st =
     (case promises st p of
        Settled old \<Rightarrow> st
      | Pending \<Rightarrow>
          st\<lparr>promises := (promises st)(p := Settled out),
             queue := queue st @ map (\<lambda>r. FinallyFlush (snd r) out) (filter (\<lambda>r. fst r = p) (reactions st)),
             reactions := filter (\<lambda>r. fst r \<noteq> p) (reactions st)\<rparr>)"

fun run_task :: "task \<Rightarrow> cstate \<Rightarrow> cstate" where
  "run_task Checkpoint st = flush st"
| "run_task (FinallyFlush q out) st = settle q out (flush st)"

text \<open>One microtask checkpoint step: the oldest queued microtask runs.\<close>

definition tick :: "cstate \<Rightarrow> cstate" where
  "tick st = (case queue st of [] \<Rightarrow> st | t # ts \<Rightarrow> run_task t (st\<lparr>queue := ts\<rparr>))"


section \<open>The action binder\<close>

text \<open>
  \<^verbatim>\<open>res.finally(flush)\<close>, the call. Of the values of the model only a promise has
  a callable \<^verbatim>\<open>finally\<close>; calling any other truthy value, or the built-in on an
  object that is not a promise, throws a TypeError.
\<close>

definition call_finally :: "val \<Rightarrow> val \<Rightarrow> cstate \<Rightarrow> outcome \<times> cstate" where
  "call_finally res f st =
     (case res of VPromise p \<Rightarrow> promise_finally p st | _ \<Rightarrow> (Inl TypeError, st))"

text \<open>
  The last line of the wrapper in \<^verbatim>\<open>src/sample.ts\<close>:
  \<^verbatim>\<open>return res && res.finally ? res.finally(flush) : res;\<close>
  The member \<^verbatim>\<open>res.finally\<close> is read once by the test and once more by the call.
\<close>

definition return_finally :: "val \<Rightarrow> cstate \<Rightarrow> outcome \<times> cstate" where
  "return_finally res st =
     (if \<not> truthy res then (Inr res, st)
      else case get_prop Sample res ''finally'' st of
             (Inl e, st1) \<Rightarrow> (Inl e, st1)
           | (Inr f, st1) \<Rightarrow>
               if \<not> truthy f then (Inr res, st1)
               else (case get_prop Sample res ''finally'' st1 of
                       (Inl e, st2) \<Rightarrow> (Inl e, st2)
                     | (Inr g, st2) \<Rightarrow> call_finally res g st2))"

text \<open>
  The wrapper \<^verbatim>\<open>res[k] = (...args) => { ... }\<close> around the action \<open>f\<close>.
  \<^verbatim>\<open>src/unnamed/part_001\<close>:
  \<^verbatim>\<open>const res = boundActions[k](...args); flush(); return res;\<close>
  \<^verbatim>\<open>src/sample.ts\<close>: the same two statements, then the line above. Neither has a
  \<^verbatim>\<open>try\<close>: when the action throws, the statements after the call do not run.
\<close>

definition bound :: "variant \<Rightarrow> (val list \<Rightarrow> prog) \<Rightarrow> val list \<Rightarrow> cstate \<Rightarrow> outcome \<times> cstate" where
  "bound var f args st =
     (case exec (f args) var st of
        (Inl e, st1) \<Rightarrow> (Inl e, st1)
      | (Inr res, st1) \<Rightarrow>
          (let st2 = flush st1
           in case var of
                Part001 \<Rightarrow> (Inr res, st2)
              | Sample \<Rightarrow> return_finally res st2))"

text \<open>
  The object that \<^verbatim>\<open>actions\<close> returns:
  \<^verbatim>\<open>const res = { subscribe: s.subscribe }; for (const k in boundActions) res[k] = ...\<close>.
  A member is either the store's own \<^verbatim>\<open>subscribe\<close> or the wrapper around an
  action of the builder. The builder is called once, with the accessor; it gets here
  what \<^verbatim>\<open>store.value\<close> reads at that moment and returns its actions by name, in
  the order of its object literal.
\<close>

datatype member = Subscribe | Wrapped "val list \<Rightarrow> prog"

text \<open>The body of the loop, \<^verbatim>\<open>res[k] = (...args) => { ... }\<close>, for one action of the builder.\<close>

definition bind_action ::
  "(string \<rightharpoonup> member) \<Rightarrow> string \<times> (val list \<Rightarrow> prog) \<Rightarrow> (string \<rightharpoonup> member)" where
  "bind_action res kf = res(fst kf \<mapsto> Wrapped (snd kf))"

definition actions ::
  "variant \<Rightarrow> (val \<Rightarrow> (string \<times> (val list \<Rightarrow> prog)) list) \<Rightarrow> cstate \<Rightarrow> (string \<rightharpoonup> member)" where
  "actions var builder st =
     (let boundActions = builder (get_value var st)
      in foldl bind_action [''subscribe'' \<mapsto> Subscribe] boundActions)"

section \<open>Traces of the scheduler\<close>

text \<open>
  What can happen to the scheduler of one container, in any order: a mutation signal
  (a call of \<^verbatim>\<open>invalidate\<close>), a forced flush (the call of \<^verbatim>\<open>flush\<close> by a wrapper) and
  a microtask checkpoint step.
\<close>

datatype event = Signal | Forced | Microtask

fun step :: "event \<Rightarrow> cstate \<Rightarrow> cstate" where
  "step Signal st = invalidate st"
| "step Forced st = flush st"
| "step Microtask st = tick st"

definition run :: "event list \<Rightarrow> cstate \<Rightarrow> cstate" where
  "run evs st = foldl (\<lambda>s e. step e s) st evs"

text \<open>The number of queued continuations of \<^verbatim>\<open>invalidate\<close>.\<close>

definition scheduled :: "cstate \<Rightarrow> nat" where
  "scheduled st = length (filter (\<lambda>t. t = Checkpoint) (queue st))"

section \<open>Scenarios\<close>

text \<open>
  \<^verbatim>\<open>value + 1\<close> on a number, and the action of the concrete scenario of the
  specification, whose body is \<^verbatim>\<open>store.value = store.value + 1\<close> three times.
\<close>

definition plus_one :: "val \<Rightarrow> val" where
  "plus_one v = (case v of VNum n \<Rightarrow> VNum (n + 1) | _ \<Rightarrow> VUndefined)"

definition next_thrice :: "val list \<Rightarrow> prog" where
  "next_thrice args =
     GetValue (\<lambda>v1. SetValue (plus_one v1)
    (GetValue (\<lambda>v2. SetValue (plus_one v2)
    (GetValue (\<lambda>v3. SetValue (plus_one v3)
    (Return VUndefined))))))"

text \<open>An action that assigns and then throws: \<^verbatim>\<open>() => { store.value = 1; throw "boom"; }\<close>.\<close>

definition set_then_throw :: "val list \<Rightarrow> prog" where
  "set_then_throw args = SetValue (VNum 1) (Throw (VStr ''boom''))"

text \<open>
  The test "return value is preserved": \<^verbatim>\<open>next() { store.value++; return "hello"; }\<close>.
\<close>

definition next_hello :: "val list \<Rightarrow> prog" where
  "next_hello args = GetValue (\<lambda>v. SetValue (plus_one v) (Return (VStr ''hello'')))"



text \<open>
  Builders: one whose only action is named \<^verbatim>\<open>subscribe\<close>, and one with the two
  actions \<^verbatim>\<open>next\<close> and \<^verbatim>\<open>hello\<close>.
\<close>

definition subscribe_builder :: "val \<Rightarrow> (string \<times> (val list \<Rightarrow> prog)) list" where
  "subscribe_builder v = [(''subscribe'', next_hello)]"

definition counter_builder :: "val \<Rightarrow> (string \<times> (val list \<Rightarrow> prog)) list" where
  "counter_builder v = [(''next'', next_thrice), (''hello'', next_hello)]"

text \<open>
  The test "proxy is created after lazy object init" of \<^verbatim>\<open>src/unnamed/part_000\<close>:
  \<^verbatim>\<open>stetson(null).actions((store) => ({ init: () => (store.value = { count: 0 }),
  add: () => store.value.count++ }))\<close>, then \<^verbatim>\<open>store.init(); store.add()\<close>, after which
  the test expects the store to hold \<^verbatim>\<open>{ count: 1 }\<close>.
\<close>

definition lazy_init :: "val list \<Rightarrow> prog" where
  "lazy_init args = NewObj [(''count'', VNum 0)] (\<lambda>ob. SetValue ob (Return ob))"

definition add_count :: "val list \<Rightarrow> prog" where
  "add_count args =
     GetValue (\<lambda>v. GetProp v ''count'' (\<lambda>c. SetProp v ''count'' (plus_one c) (Return c)))"

text \<open>A world with the two objects \<^verbatim>\<open>{ count: 0 }\<close> at address 0 and \<^verbatim>\<open>{ count: 7 }\<close> at address 2.\<close>

definition w_two_objects :: cstate where
  "w_two_objects =
     empty_world\<lparr>heap := (\<lambda>a. if a = 0 then object_literal [(''count'', VNum 0)]
                               else if a = 2 then object_literal [(''count'', VNum 7)]
                               else (\<lambda>p. VUndefined)),
                 next_addr := 3\<rparr>"





section \<open>Basic facts about the scheduler\<close>

lemma flush_fields [simp]:
  "dirty (flush st) = False"
  "the_value (flush st) = the_value st"
  "valueProxy (flush st) = valueProxy st"
  "heap (flush st) = heap st"
  "next_addr (flush st) = next_addr st"
  "promises (flush st) = promises st"
  "next_pid (flush st) = next_pid st"
  "reactions (flush st) = reactions st"
  "queue (flush st) = queue st"
  by (simp_all add: flush_def s_set_def)

lemma flush_notified:
  "s_notified (flush st) = (if dirty st then s_notified st @ [the_value st] else s_notified st)"
  by (simp add: flush_def s_set_def)

lemma flush_s_value:
  "s_value (flush st) = (if dirty st then the_value st else s_value st)"
  by (simp add: flush_def s_set_def)

lemma flush_clean: "\<not> dirty st \<Longrightarrow> flush st = st"
  by (simp add: flush_def)

lemma invalidate_fields [simp]:
  "dirty (invalidate st) = True"
  "the_value (invalidate st) = the_value st"
  "valueProxy (invalidate st) = valueProxy st"
  "s_value (invalidate st) = s_value st"
  "s_notified (invalidate st) = s_notified st"
  "heap (invalidate st) = heap st"
  "next_addr (invalidate st) = next_addr st"
  "promises (invalidate st) = promises st"
  "next_pid (invalidate st) = next_pid st"
  "reactions (invalidate st) = reactions st"
  by (simp_all add: invalidate_def)

lemma invalidate_queue:
  "queue (invalidate st) = (if dirty st then queue st else queue st @ [Checkpoint])"
  by (simp add: invalidate_def)

lemma invalidate_pending: "dirty st \<Longrightarrow> invalidate st = st"
  by (simp add: invalidate_def)

lemma settle_fields [simp]:
  "dirty (settle p out st) = dirty st"
  "the_value (settle p out st) = the_value st"
  "valueProxy (settle p out st) = valueProxy st"
  "s_value (settle p out st) = s_value st"
  "s_notified (settle p out st) = s_notified st"
  "heap (settle p out st) = heap st"
  "next_addr (settle p out st) = next_addr st"
  "next_pid (settle p out st) = next_pid st"
  by (simp_all add: settle_def split: pstate.splits)

lemma run_task_clean [simp]: "dirty (run_task t st) = False"
  by (cases t) simp_all

lemma run_task_notified:
  "s_notified (run_task t st) = (if dirty st then s_notified st @ [the_value st] else s_notified st)"
  by (cases t) (simp_all add: flush_notified)

lemma run_task_the_value [simp]: "the_value (run_task t st) = the_value st"
  by (cases t) simp_all

lemma tick_notified:
  "s_notified (tick st) =
     (if dirty st \<and> queue st \<noteq> [] then s_notified st @ [the_value st] else s_notified st)"
  by (simp add: tick_def run_task_notified split: list.splits)

lemma tick_dirty: "dirty (tick st) = (dirty st \<and> queue st = [])"
  by (simp add: tick_def split: list.splits)

lemma tick_the_value [simp]: "the_value (tick st) = the_value st"
  by (simp add: tick_def split: list.splits)


lemma run_snoc: "run (evs @ [e]) st = step e (run evs st)"
  by (simp add: run_def)

lemma step_notified_le:
  "length (s_notified (step e st)) + (if dirty (step e st) then 1 else 0)
     \<le> length (s_notified st) + (if dirty st then 1 else 0) + (if e = Signal then 1 else 0)"
  by (cases e) (simp_all add: flush_notified tick_notified tick_dirty)

lemma run_notified_le:
  "length (s_notified (run evs st)) + (if dirty (run evs st) then 1 else 0)
     \<le> length (s_notified st) + (if dirty st then 1 else 0) + length (filter (\<lambda>e. e = Signal) evs)"
proof (induction evs rule: rev_induct)
  case Nil
  show ?case by (simp add: run_def)
next
  case (snoc e evs)
  let ?owed = "\<lambda>s. length (s_notified s) + (if dirty s then 1 else 0 :: nat)"
  have a: "?owed (run (evs @ [e]) st) \<le> ?owed (run evs st) + (if e = Signal then 1 else 0)"
    unfolding run_snoc by (rule step_notified_le)
  have b: "?owed (run evs st) \<le> ?owed st + length (filter (\<lambda>e. e = Signal) evs)"
    by (rule snoc.IH)
  have c: "length (filter (\<lambda>e. e = Signal) (evs @ [e]))
             = length (filter (\<lambda>e. e = Signal) evs) + (if e = Signal then 1 else 0)"
    by simp
  from a b show ?case unfolding c by linarith
qed

section \<open>What running a body does to the scheduler\<close>

lemma raw_set_sched [simp]:
  "dirty (snd (raw_set r p v st)) = dirty st"
  "queue (snd (raw_set r p v st)) = queue st"
  "s_notified (snd (raw_set r p v st)) = s_notified st"
  "s_value (snd (raw_set r p v st)) = s_value st"
  by (cases r; simp)+

lemma set_value_sched:
  "dirty (set_value var v st) = True"
  "queue (set_value var v st) = (if dirty st then queue st else queue st @ [Checkpoint])"
  "s_notified (set_value var v st) = s_notified st"
  "the_value (set_value var v st) = v"
  by (cases var; simp add: set_value_def makeStateProxy_def Let_def invalidate_queue)+

lemma trap_get_sched:
  "dirty (snd (trap_get var p st)) = True"
  "queue (snd (trap_get var p st)) = (if dirty st then queue st else queue st @ [Checkpoint])"
  "s_notified (snd (trap_get var p st)) = s_notified st"
  by (cases var; simp add: trap_get_def Let_def invalidate_queue split: val.splits)+

lemma trap_set_sched:
  "dirty (snd (trap_set var p v st)) = True"
  "queue (snd (trap_set var p v st)) = (if dirty st then queue st else queue st @ [Checkpoint])"
  "s_notified (snd (trap_set var p v st)) = s_notified st"
  by (cases var; simp add: trap_set_def Let_def invalidate_queue split: val.splits)+

lemma get_prop_sched:
  "dirty (snd (get_prop var r p st)) = (dirty st \<or> is_view r)"
  "queue (snd (get_prop var r p st))
     = (if \<not> dirty st \<and> is_view r then queue st @ [Checkpoint] else queue st)"
  "s_notified (snd (get_prop var r p st)) = s_notified st"
  by (cases r; simp add: get_prop_def trap_get_sched)+

lemma set_prop_sched:
  "dirty (snd (set_prop var r p v st)) = (dirty st \<or> is_view r)"
  "queue (snd (set_prop var r p v st))
     = (if \<not> dirty st \<and> is_view r then queue st @ [Checkpoint] else queue st)"
  "s_notified (snd (set_prop var r p v st)) = s_notified st"
proof -
  obtain out st1 where t: "trap_set var p v st = (out, st1)"
    by (cases "trap_set var p v st")
  have d: "dirty st1 = True"
    and q: "queue st1 = (if dirty st then queue st else queue st @ [Checkpoint])"
    and n: "s_notified st1 = s_notified st"
    using trap_set_sched [of var p v st] by (simp_all add: t)
  show "dirty (snd (set_prop var r p v st)) = (dirty st \<or> is_view r)"
    by (cases r; simp add: set_prop_def t d split: sum.splits)
  show "queue (snd (set_prop var r p v st))
     = (if \<not> dirty st \<and> is_view r then queue st @ [Checkpoint] else queue st)"
    by (cases r; simp add: set_prop_def t q split: sum.splits)
  show "s_notified (snd (set_prop var r p v st)) = s_notified st"
    by (cases r; simp add: set_prop_def t n split: sum.splits)
qed

lemma signal_count_view: "(case r of VProxy t \<Rightarrow> 1 | _ \<Rightarrow> 0) = (if is_view r then 1 else 0 :: nat)"
  by (cases r) simp_all

lemma exec_notified: "s_notified (snd (exec body var st)) = s_notified st"
proof (induction body arbitrary: st)
  case (GetProp r p k)
  show ?case
  proof (cases "get_prop var r p st")
    case (Pair out st1)
    have "s_notified st1 = s_notified st"
      using get_prop_sched(3) [of var r p st] by (simp add: Pair)
    then show ?thesis
      by (cases out) (simp_all add: Pair GetProp.IH)
  qed
next
  case (SetProp r p v k)
  show ?case
  proof (cases "set_prop var r p v st")
    case (Pair out st1)
    have "s_notified st1 = s_notified st"
      using set_prop_sched(3) [of var r p v st] by (simp add: Pair)
    then show ?thesis
      by (cases out) (simp_all add: Pair SetProp.IH)
  qed
qed (simp_all add: set_value_sched)

lemma exec_dirty: "dirty (snd (exec body var st)) = (dirty st \<or> 0 < signals body var st)"
proof (induction body arbitrary: st)
  case (GetProp r p k)
  show ?case
  proof (cases "get_prop var r p st")
    case (Pair out st1)
    have "dirty st1 = (dirty st \<or> is_view r)"
      using get_prop_sched(1) [of var r p st] by (simp add: Pair)
    then show ?thesis
      by (cases out) (auto simp: Pair GetProp.IH signal_count_view)
  qed
next
  case (SetProp r p v k)
  show ?case
  proof (cases "set_prop var r p v st")
    case (Pair out st1)
    have "dirty st1 = (dirty st \<or> is_view r)"
      using set_prop_sched(1) [of var r p v st] by (simp add: Pair)
    then show ?thesis
      by (cases out) (auto simp: Pair SetProp.IH signal_count_view)
  qed
qed (simp_all add: set_value_sched)

lemma exec_queue:
  "queue (snd (exec body var st))
     = (if \<not> dirty st \<and> 0 < signals body var st then queue st @ [Checkpoint] else queue st)"
proof (induction body arbitrary: st)
  case (GetProp r p k)
  show ?case
  proof (cases "get_prop var r p st")
    case (Pair out st1)
    have "dirty st1 = (dirty st \<or> is_view r)"
      and "queue st1 = (if \<not> dirty st \<and> is_view r then queue st @ [Checkpoint] else queue st)"
      using get_prop_sched(1,2) [of var r p st] by (simp_all add: Pair)
    then show ?thesis
      by (cases out) (auto simp: Pair GetProp.IH signal_count_view)
  qed
next
  case (SetProp r p v k)
  show ?case
  proof (cases "set_prop var r p v st")
    case (Pair out st1)
    have "dirty st1 = (dirty st \<or> is_view r)"
      and "queue st1 = (if \<not> dirty st \<and> is_view r then queue st @ [Checkpoint] else queue st)"
      using set_prop_sched(1,2) [of var r p v st] by (simp_all add: Pair)
    then show ?thesis
      by (cases out) (auto simp: Pair SetProp.IH signal_count_view)
  qed
qed (simp_all add: set_value_sched)

section \<open>What the wrapper does\<close>




lemma bound_Inl: "exec (f args) var st = (Inl e, st1) \<Longrightarrow> bound var f args st = (Inl e, st1)"
  by (simp add: bound_def)

lemmas model_defs =
  stetson_def empty_world_def makeStateProxy_def get_value_def set_value_def Let_def invalidate_def

lemmas wrapper_defs =
  bound_def return_finally_def get_prop_def set_prop_def trap_get_def trap_set_def
  call_finally_def promise_finally_def flush_def s_set_def object_literal_def

section \<open>The claims\<close>




text \<open>
  C7. Every flush pushes the Value as it is when the flush runs. After a mutation
  signal from any state, let any body run (the mutations between the report and the
  flush); then a forced flush, and equally a queued microtask of either kind, hands
  the subscribers the Value that the body left, and the store holds it; the flush
  leaves the heap alone, so an object Value is seen with its latest contents. No
  earlier Value is kept anywhere: \<^verbatim>\<open>invalidate\<close> only sets the token.
\<close>

theorem flush_observes_latest_value:
  "s_notified (flush (snd (exec body var (invalidate st))))
     = s_notified st @ [the_value (snd (exec body var (invalidate st)))]
   \<and> s_notified (run_task t (snd (exec body var (invalidate st))))
     = s_notified st @ [the_value (snd (exec body var (invalidate st)))]
   \<and> s_value (flush (snd (exec body var (invalidate st))))
     = the_value (snd (exec body var (invalidate st)))
   \<and> heap (flush (snd (exec body var (invalidate st))))
     = heap (snd (exec body var (invalidate st)))"
proof -
  let ?s = "snd (exec body var (invalidate st))"
  have d: "dirty ?s"
    by (simp add: exec_dirty)
  have n: "s_notified ?s = s_notified st"
    by (simp add: exec_notified)
  show ?thesis
    by (simp add: flush_notified run_task_notified flush_s_value d n)
qed

text \<open>
  C6, as stated, fails: a signal, a forced flush and one more signal, with no
  microtask in between, leave two continuations of \<^verbatim>\<open>invalidate\<close> queued at once
  for the same container, because the forced flush clears the token and does not
  remove the continuation already queued.
\<close>

theorem two_checkpoints_queued:
  "scheduled (run [Signal, Forced, Signal] (stetson Sample (VNum 0) empty_world)) = 2
   \<and> scheduled (run [Signal, Forced, Signal] (stetson Part001 (VNum 0) empty_world)) = 2"
  by (simp add: run_def scheduled_def flush_def s_set_def model_defs)

lemma scheduled_invalidate:
  "scheduled (invalidate st) = (if dirty st then scheduled st else Suc (scheduled st))"
  by (simp add: scheduled_def invalidate_queue)

text \<open>
  C6, amended. \<^verbatim>\<open>invalidate\<close> on a pending token changes nothing, and on a clean
  token sets it and queues exactly one continuation; \<^verbatim>\<open>flush\<close> removes nothing from
  the queue, and a second flush right after a flush does nothing. Over every sequence
  of signals, forced flushes and microtasks, the notifications delivered (plus one
  when the token is still pending) are at most those owed at the start plus the
  signals raised: no signal is notified twice.
\<close>

theorem token_guards_scheduling:
  "(dirty st \<longrightarrow> invalidate st = st)
   \<and> (\<not> dirty st \<longrightarrow>
        dirty (invalidate st) \<and> queue (invalidate st) = queue st @ [Checkpoint]
        \<and> scheduled (invalidate st) = Suc (scheduled st))
   \<and> scheduled (flush st) = scheduled st
   \<and> flush (flush st) = flush st
   \<and> (\<forall>evs. length (s_notified (run evs st)) + (if dirty (run evs st) then 1 else 0)
          \<le> length (s_notified st) + (if dirty st then 1 else 0)
            + length (filter (\<lambda>e. e = Signal) evs))"
proof -
  have a: "dirty st \<longrightarrow> invalidate st = st"
    by (simp add: invalidate_pending)
  have b: "\<not> dirty st \<longrightarrow>
        dirty (invalidate st) \<and> queue (invalidate st) = queue st @ [Checkpoint]
        \<and> scheduled (invalidate st) = Suc (scheduled st)"
    by (simp add: invalidate_queue scheduled_invalidate)
  have c: "scheduled (flush st) = scheduled st"
    by (simp add: scheduled_def)
  have d: "flush (flush st) = flush st"
    by (rule flush_clean) simp
  show ?thesis
    using a b c d run_notified_le [of _ st] by blast
qed

theorem token_guards_scheduling_witness:
  "invalidate (invalidate (stetson Sample (VNum 0) empty_world))
      = invalidate (stetson Sample (VNum 0) empty_world)
   \<and> scheduled (invalidate (stetson Sample (VNum 0) empty_world)) = 1
   \<and> length (s_notified (run [Signal, Signal, Forced, Forced, Microtask]
                (stetson Sample (VNum 0) empty_world))) \<le> 2"
proof -
  let ?a = "stetson Sample (VNum 0) empty_world"
  have c: "\<not> dirty ?a" "s_notified ?a = []" "scheduled ?a = 0"
    by (simp_all add: model_defs scheduled_def)
  have p: "dirty (invalidate ?a)"
    by simp
  have t1: "invalidate (invalidate ?a) = invalidate ?a"
    using token_guards_scheduling [of "invalidate ?a"] p by blast
  have t2: "scheduled (invalidate ?a) = 1"
    using token_guards_scheduling [of ?a] c by simp
  have "length (s_notified (run [Signal, Signal, Forced, Forced, Microtask] ?a))
          + (if dirty (run [Signal, Signal, Forced, Forced, Microtask] ?a) then 1 else 0)
        \<le> length (s_notified ?a) + (if dirty ?a then 1 else 0)
          + length (filter (\<lambda>e. e = Signal) [Signal, Signal, Forced, Forced, Microtask])"
    using token_guards_scheduling [of ?a] by blast
  then have t3: "length (s_notified (run [Signal, Signal, Forced, Forced, Microtask] ?a)) \<le> 2"
    using c by (simp split: if_splits)
  show ?thesis
    using t1 t2 t3 by blast
qed

lemma get_prop_s_value: "s_value (snd (get_prop var r p st)) = s_value st"
  by (cases r; cases var; simp add: get_prop_def trap_get_def Let_def split: val.splits)

lemma trap_set_s_value: "s_value (snd (trap_set var p v st)) = s_value st"
  by (cases var; simp add: trap_set_def Let_def split: val.splits)

lemma set_prop_s_value: "s_value (snd (set_prop var r p v st)) = s_value st"
proof -
  obtain out st1 where t: "trap_set var p v st = (out, st1)"
    by (cases "trap_set var p v st")
  have "s_value st1 = s_value st"
    using trap_set_s_value [of var p v st] by (simp add: t)
  then show ?thesis
    by (cases r; simp add: set_prop_def t split: sum.splits)
qed

lemma set_value_s_value: "s_value (set_value var v st) = s_value st"
  by (cases var; simp add: set_value_def makeStateProxy_def Let_def)

lemma exec_s_value: "s_value (snd (exec body var st)) = s_value st"
proof (induction body arbitrary: st)
  case (GetProp r p k)
  show ?case
  proof (cases "get_prop var r p st")
    case (Pair out st1)
    have "s_value st1 = s_value st"
      using get_prop_s_value [of var r p st] by (simp add: Pair)
    then show ?thesis
      by (cases out) (simp_all add: Pair GetProp.IH)
  qed
next
  case (SetProp r p v k)
  show ?case
  proof (cases "set_prop var r p v st")
    case (Pair out st1)
    have "s_value st1 = s_value st"
      using set_prop_s_value [of var r p v st] by (simp add: Pair)
    then show ?thesis
      by (cases out) (simp_all add: Pair SetProp.IH)
  qed
qed (simp_all add: set_value_s_value)

text \<open>
  C2, as stated, fails: the wrapper calls \<^verbatim>\<open>flush\<close> in the statement after the call
  of the action, outside any \<^verbatim>\<open>try\<close>, so a synchronous throw skips it. After an
  action that assigns 1 and throws, the error has reached the caller, the Value is 1,
  the token is still pending, the store still holds 0 and no subscriber has been
  notified. Both versions behave so.
\<close>

theorem throw_skips_forced_flush:
  "fst (bound Sample set_then_throw [] (stetson Sample (VNum 0) empty_world)) = Inl (Thrown (VStr ''boom''))
   \<and> the_value (snd (bound Sample set_then_throw [] (stetson Sample (VNum 0) empty_world))) = VNum 1
   \<and> dirty (snd (bound Sample set_then_throw [] (stetson Sample (VNum 0) empty_world)))
   \<and> s_notified (snd (bound Sample set_then_throw [] (stetson Sample (VNum 0) empty_world))) = []
   \<and> s_value (snd (bound Sample set_then_throw [] (stetson Sample (VNum 0) empty_world))) = VNum 0
   \<and> fst (bound Part001 set_then_throw [] (stetson Part001 (VNum 0) empty_world)) = Inl (Thrown (VStr ''boom''))
   \<and> dirty (snd (bound Part001 set_then_throw [] (stetson Part001 (VNum 0) empty_world)))
   \<and> s_notified (snd (bound Part001 set_then_throw [] (stetson Part001 (VNum 0) empty_world))) = []"
  by (simp add: bound_def set_then_throw_def model_defs)

text \<open>
  C2, amended. When the body of a wrapped action throws, the call ends with that same
  error and with the state exactly as the body left it: the forced flush does not
  run, nothing is delivered and the store is unchanged when control returns, and
  nothing is rolled back. If the body raised a signal the token is pending; with a
  microtask queued whenever the token was pending at the start, the queue is then not
  empty and its first microtask delivers the Value as the body left it.
\<close>

theorem throw_propagates_without_flush:
  assumes ex: "exec (f args) var st = (Inl e, st1)"
  shows "bound var f args st = (Inl e, st1)
       \<and> s_notified st1 = s_notified st
       \<and> s_value st1 = s_value st
       \<and> (0 < signals (f args) var st \<longrightarrow> dirty st1)
       \<and> (0 < signals (f args) var st \<and> (dirty st \<longrightarrow> queue st \<noteq> []) \<longrightarrow>
            queue st1 \<noteq> []
          \<and> s_notified (tick st1) = s_notified st @ [the_value st1]
          \<and> \<not> dirty (tick st1))"
proof -
  have n1: "s_notified st1 = s_notified st"
    using exec_notified [of "f args" var st] by (simp add: ex)
  have v1: "s_value st1 = s_value st"
    using exec_s_value [of "f args" var st] by (simp add: ex)
  have d1: "dirty st1 = (dirty st \<or> 0 < signals (f args) var st)"
    using exec_dirty [of "f args" var st] by (simp add: ex)
  have q1: "queue st1 = (if \<not> dirty st \<and> 0 < signals (f args) var st then queue st @ [Checkpoint] else queue st)"
    using exec_queue [of "f args" var st] by (simp add: ex)
  show ?thesis
    using bound_Inl [of f args var st e st1, OF ex] n1 v1 d1 q1
    by (auto simp: tick_notified tick_dirty)
qed

theorem throw_propagates_without_flush_witness:
  "bound Sample set_then_throw [] (stetson Sample (VNum 0) empty_world)
     = exec (set_then_throw []) Sample (stetson Sample (VNum 0) empty_world)
   \<and> dirty (snd (exec (set_then_throw []) Sample (stetson Sample (VNum 0) empty_world)))
   \<and> s_notified (snd (exec (set_then_throw []) Sample (stetson Sample (VNum 0) empty_world))) = []
   \<and> s_notified (tick (snd (exec (set_then_throw []) Sample (stetson Sample (VNum 0) empty_world)))) = [VNum 1]"
proof -
  let ?a = "stetson Sample (VNum 0) empty_world"
  have ex: "exec (set_then_throw []) Sample ?a
              = (Inl (Thrown (VStr ''boom'')), snd (exec (set_then_throw []) Sample ?a))"
    by (simp add: set_then_throw_def model_defs)
  have sg: "0 < signals (set_then_throw []) Sample ?a"
    by (simp add: set_then_throw_def model_defs)
  have c: "\<not> dirty ?a" "s_notified ?a = []"
    by (simp_all add: set_then_throw_def model_defs)
  have v: "the_value (snd (exec (set_then_throw []) Sample ?a)) = VNum 1"
    by (simp add: set_then_throw_def model_defs)
  show ?thesis
    using throw_propagates_without_flush [of set_then_throw "[]" Sample ?a, OF ex] sg c v ex
    by simp
qed


lemma bind_action_apply:
  "bind_action res (k', f) k = (if k = k' then Some (Wrapped f) else res k)"
  by (simp add: bind_action_def)

lemma foldl_bind:
  "foldl bind_action m acts k
     = (case map_of (rev acts) k of None \<Rightarrow> m k | Some f \<Rightarrow> Some (Wrapped f))"
proof (induction acts rule: rev_induct)
  case Nil
  show ?case by simp
next
  case (snoc a acts)
  show ?case
    by (cases a) (simp add: bind_action_apply snoc.IH)
qed

lemma map_of_rev_None: "(map_of (rev acts) k = None) = (k \<notin> fst ` set acts)"
  by (simp add: map_of_eq_None_iff)

lemma map_of_rev_Some: "map_of (rev acts) k = Some f \<Longrightarrow> (k, f) \<in> set acts"
  using map_of_SomeD [of "rev acts" k f] by simp




text \<open>
  C9, as stated, fails: the loop over the actions of the builder assigns
  \<^verbatim>\<open>res[k]\<close> for every name, also for the name \<^verbatim>\<open>subscribe\<close>, so a builder that
  returns an action of that name replaces the store's \<^verbatim>\<open>subscribe\<close> by the wrapper
  around its action.
\<close>

theorem builder_can_replace_subscribe:
  "actions Sample subscribe_builder (stetson Sample (VNum 0) empty_world) ''subscribe''
     = Some (Wrapped next_hello)
   \<and> actions Part001 subscribe_builder (stetson Part001 (VNum 0) empty_world) ''subscribe''
     = Some (Wrapped next_hello)"
  by (simp add: actions_def subscribe_builder_def bind_action_apply)

text \<open>
  C9, amended. The names of the returned object are \<^verbatim>\<open>subscribe\<close> and the names that
  the builder returned, and no other; every name of the builder is bound to the
  wrapper around one of its actions; and \<^verbatim>\<open>subscribe\<close> is the store's own
  \<^verbatim>\<open>subscribe\<close> whenever the builder returned no action of that name.
\<close>

theorem public_surface:
  "dom (actions var builder st) = insert ''subscribe'' (fst ` set (builder (get_value var st)))
   \<and> (\<forall>k \<in> fst ` set (builder (get_value var st)).
         \<exists>f. (k, f) \<in> set (builder (get_value var st)) \<and> actions var builder st k = Some (Wrapped f))
   \<and> (''subscribe'' \<notin> fst ` set (builder (get_value var st)) \<longrightarrow>
         actions var builder st ''subscribe'' = Some Subscribe)"
proof -
  let ?acts = "builder (get_value var st)"
  have eq: "actions var builder st k
      = (case map_of (rev ?acts) k of
           None \<Rightarrow> [''subscribe'' \<mapsto> Subscribe] k
         | Some f \<Rightarrow> Some (Wrapped f))" for k
    unfolding actions_def Let_def by (rule foldl_bind)
  have d: "dom (actions var builder st) = insert ''subscribe'' (fst ` set ?acts)"
  proof (rule set_eqI)
    fix k
    note e = eq [of k]
    show "(k \<in> dom (actions var builder st)) = (k \<in> insert ''subscribe'' (fst ` set ?acts))"
    proof (cases "map_of (rev ?acts) k")
      case None
      then have n: "k \<notin> fst ` set ?acts"
        using map_of_rev_None [of ?acts k] by blast
      have "actions var builder st k = [''subscribe'' \<mapsto> Subscribe] k"
        by (simp only: e None option.case)
      then have "(actions var builder st k \<noteq> None) = (k = ''subscribe'')"
        by simp
      then show ?thesis
        using n by (simp only: domIff insert_iff simp_thms)
    next
      case (Some f)
      then have i: "k \<in> fst ` set ?acts"
        using map_of_rev_None [of ?acts k] by auto
      have "actions var builder st k = Some (Wrapped f)"
        by (simp only: e Some option.case)
      then have "actions var builder st k \<noteq> None"
        by simp
      then show ?thesis
        using i by (simp only: domIff insert_iff simp_thms)
    qed
  qed
  have w: "\<exists>f. (k, f) \<in> set ?acts \<and> actions var builder st k = Some (Wrapped f)"
    if "k \<in> fst ` set ?acts" for k
  proof -
    from that have "map_of (rev ?acts) k \<noteq> None"
      using map_of_rev_None [of ?acts k] by blast
    then obtain f where f: "map_of (rev ?acts) k = Some f"
      by blast
    have "actions var builder st k = Some (Wrapped f)"
      by (simp only: eq [of k] f option.case)
    then show ?thesis
      using map_of_rev_Some [OF f] by blast
  qed
  have s: "actions var builder st ''subscribe'' = Some Subscribe"
    if "''subscribe'' \<notin> fst ` set ?acts"
  proof -
    from that have "map_of (rev ?acts) ''subscribe'' = None"
      using map_of_rev_None [of ?acts "''subscribe''"] by blast
    then show ?thesis
      by (simp only: eq option.case fun_upd_same)
  qed
  show ?thesis
  proof (intro conjI ballI impI)
    show "dom (actions var builder st) = insert ''subscribe'' (fst ` set ?acts)"
      by (rule d)
  next
    fix k
    assume "k \<in> fst ` set ?acts"
    then show "\<exists>f. (k, f) \<in> set ?acts \<and> actions var builder st k = Some (Wrapped f)"
      by (rule w)
  next
    assume "''subscribe'' \<notin> fst ` set ?acts"
    then show "actions var builder st ''subscribe'' = Some Subscribe"
      by (rule s)
  qed
qed

theorem public_surface_witness:
  "dom (actions Sample counter_builder (stetson Sample (VNum 0) empty_world))
     = {''subscribe'', ''next'', ''hello''}
   \<and> actions Sample counter_builder (stetson Sample (VNum 0) empty_world) ''subscribe'' = Some Subscribe
   \<and> (\<exists>f. actions Sample counter_builder (stetson Sample (VNum 0) empty_world) ''next'' = Some (Wrapped f))"
proof -
  let ?a = "stetson Sample (VNum 0) empty_world"
  have b: "fst ` set (counter_builder (get_value Sample ?a)) = {''next'', ''hello''}"
    by (simp add: counter_builder_def)
  have i: "''next'' \<in> fst ` set (counter_builder (get_value Sample ?a))"
    by (simp add: b)
  have "\<exists>f. (''next'', f) \<in> set (counter_builder (get_value Sample ?a))
          \<and> actions Sample counter_builder ?a ''next'' = Some (Wrapped f)"
    using public_surface [of Sample counter_builder ?a] i by blast
  then have n: "\<exists>f. actions Sample counter_builder ?a ''next'' = Some (Wrapped f)"
    by blast
  have "''subscribe'' \<notin> fst ` set (counter_builder (get_value Sample ?a))"
    by (simp add: b)
  then have s: "actions Sample counter_builder ?a ''subscribe'' = Some Subscribe"
    using public_surface [of Sample counter_builder ?a] by blast
  have "dom (actions Sample counter_builder ?a)
          = insert ''subscribe'' (fst ` set (counter_builder (get_value Sample ?a)))"
    using public_surface [of Sample counter_builder ?a] by blast
  then have d: "dom (actions Sample counter_builder ?a) = {''subscribe'', ''next'', ''hello''}"
    by (simp add: b)
  show ?thesis
    using d s n by blast
qed



text \<open>
  C4, evaluated at the test "proxy is created after lazy object init": a container
  constructed with \<^verbatim>\<open>null\<close>, then \<^verbatim>\<open>init()\<close>, then \<^verbatim>\<open>add()\<close>. In
  \<^verbatim>\<open>src/sample.ts\<close> the setter leaves \<^verbatim>\<open>valueProxy\<close> at \<^verbatim>\<open>null\<close> when the new
  Value is an object, so \<^verbatim>\<open>store.value.count\<close> throws a TypeError: the count
  stays 0 and the subscribers have only the notification of \<^verbatim>\<open>init\<close>. In
  \<^verbatim>\<open>src/unnamed/part_001\<close> the setter rebuilds the view but the getter returns the
  raw Value, so \<^verbatim>\<open>add\<close> sets the count to 1 without a signal: the token is clean
  and nothing is notified.
\<close>

theorem lazy_object_not_tracked:
  "the_value (snd (bound Sample lazy_init [] (stetson Sample VNull empty_world))) = VObj 0
   \<and> s_notified (snd (bound Sample lazy_init [] (stetson Sample VNull empty_world))) = [VObj 0]
   \<and> fst (bound Sample add_count []
            (snd (bound Sample lazy_init [] (stetson Sample VNull empty_world)))) = Inl TypeError
   \<and> heap (snd (bound Sample add_count []
            (snd (bound Sample lazy_init [] (stetson Sample VNull empty_world))))) 0 ''count'' = VNum 0
   \<and> s_notified (snd (bound Sample add_count []
            (snd (bound Sample lazy_init [] (stetson Sample VNull empty_world))))) = [VObj 0]
   \<and> the_value (snd (bound Part001 lazy_init [] (stetson Part001 VNull empty_world))) = VObj 0
   \<and> fst (bound Part001 add_count []
            (snd (bound Part001 lazy_init [] (stetson Part001 VNull empty_world)))) = Inr (VNum 0)
   \<and> heap (snd (bound Part001 add_count []
            (snd (bound Part001 lazy_init [] (stetson Part001 VNull empty_world))))) 0 ''count'' = VNum 1
   \<and> s_notified (snd (bound Part001 add_count []
            (snd (bound Part001 lazy_init [] (stetson Part001 VNull empty_world))))) = [VObj 0]
   \<and> \<not> dirty (snd (bound Part001 add_count []
            (snd (bound Part001 lazy_init [] (stetson Part001 VNull empty_world)))))"
  by (simp add: lazy_init_def add_count_def wrapper_defs plus_one_def model_defs)

text \<open>
  C5, evaluated at two states whose Value is an object. After the lazy
  initialisation above, the getter of \<^verbatim>\<open>src/sample.ts\<close> returns \<^verbatim>\<open>null\<close>, not a
  tracked view. For a container constructed with an object, the getter of
  \<^verbatim>\<open>src/unnamed/part_001\<close> returns the raw object although a view exists, and a
  property read through that view throws a ReferenceError.
\<close>

theorem getter_returns_no_view:
  "instanceof_Object (the_value (snd (bound Sample lazy_init [] (stetson Sample VNull empty_world))))
   \<and> get_value Sample (snd (bound Sample lazy_init [] (stetson Sample VNull empty_world))) = VNull
   \<and> instanceof_Object (the_value (stetson Part001 (VObj 0) w_two_objects))
   \<and> valueProxy (stetson Part001 (VObj 0) w_two_objects) = VProxy (VObj 0)
   \<and> get_value Part001 (stetson Part001 (VObj 0) w_two_objects) = VObj 0
   \<and> fst (get_prop Part001 (valueProxy (stetson Part001 (VObj 0) w_two_objects)) ''count''
            (stetson Part001 (VObj 0) w_two_objects)) = Inl ReferenceError"
  by (simp add: lazy_init_def add_count_def wrapper_defs plus_one_def model_defs w_two_objects_def)



lemma raw_set_frame [simp]:
  "promises (snd (raw_set r p v st)) = promises st"
  "reactions (snd (raw_set r p v st)) = reactions st"
  "next_pid (snd (raw_set r p v st)) = next_pid st"
  by (cases r; simp)+
















end
